theory Spec2Isabelle
  imports Main "HOL-Library.AList"
begin

section \<open>The job matcher of \<open>backend/main.py\<close>\<close>

text \<open>
  The handler under study:
  \<^verbatim>\<open>
  def match_jobs(candidate: dict, jobs: List[dict]):
      matched_jobs = []
      for job in jobs:
          score = sum(skill in job["required_skills"] for skill in candidate["skills"])
          if score > 0:
              job["match_score"] = score
              matched_jobs.append(job)
      matched_jobs.sort(key=lambda x: x["match_score"], reverse=True)
      return {"matches": matched_jobs}
  \<close>
  The candidate and the jobs are dictionaries decoded from a request body, so their
  fields hold arbitrary JSON values. The handler writes one key into job dictionaries in
  place and returns references to them; the dictionaries therefore live in a store and
  are named by references. What a dictionary holds under its keys is only ever read: it
  is a value, a tree that refers to no object of the store.
\<close>

subsection \<open>Values\<close>

text \<open>
  JSON values as Python sees them after decoding. Numbers are the integers; a number
  with a fraction or an exponent (a Python float) is not represented. A string is the
  list of its characters, over the 256 characters of \<^typ>\<open>char\<close>. A dictionary is an association list in insertion order, its
  keys distinct, read with \<^const>\<open>map_of\<close> and written with \<^const>\<open>AList.update\<close>,
  which replaces the value of a key that is present and appends a new key at the end,
  as a Python \<open>dict\<close> does.
\<close>

datatype pyval =
    PNone
  | PBool bool
  | PInt int
  | PStr string
  | PList "pyval list"
  | PDict "(string \<times> pyval) list"

type_synonym pydict = "(string \<times> pyval) list"

datatype error = KeyError string | TypeError

text \<open>Python's \<open>==\<close> on these values: \<open>bool\<close> is a subclass of \<open>int\<close>, lists compare
  element by element, dictionaries compare as sets of items.\<close>

definition int_of_bool :: "bool \<Rightarrow> int" where
  "int_of_bool b = (if b then 1 else 0)"

fun py_eq :: "pyval \<Rightarrow> pyval \<Rightarrow> bool" where
  "py_eq PNone PNone = True"
| "py_eq (PBool a) (PBool b) = (a = b)"
| "py_eq (PBool a) (PInt n) = (int_of_bool a = n)"
| "py_eq (PInt m) (PBool b) = (m = int_of_bool b)"
| "py_eq (PInt m) (PInt n) = (m = n)"
| "py_eq (PStr s) (PStr t) = (s = t)"
| "py_eq (PList xs) (PList ys) = list_all2 py_eq xs ys"
| "py_eq (PDict a) (PDict b) =
     (length a = length b \<and>
      (\<forall>(k, v) \<in> set a. case map_of b k of None \<Rightarrow> False | Some w \<Rightarrow> py_eq v w))"
| "py_eq _ _ = False"

text \<open>\<open>t in s\<close> on two strings: \<open>t\<close> occurs in \<open>s\<close> as a contiguous run.\<close>

fun substring :: "string \<Rightarrow> string \<Rightarrow> bool" where
  "substring t [] = (t = [])"
| "substring t (c # cs) = (take (length t) (c # cs) = t \<or> substring t cs)"

text \<open>What a \<open>for\<close> clause iterates over: the elements of a list, the characters of a
  string, the keys of a dictionary; anything else raises \<open>TypeError\<close>.\<close>

fun py_iter :: "pyval \<Rightarrow> error + pyval list" where
  "py_iter (PList xs) = Inr xs"
| "py_iter (PStr s) = Inr (map (\<lambda>c. PStr [c]) s)"
| "py_iter (PDict kvs) = Inr (map (\<lambda>kv. PStr (fst kv)) kvs)"
| "py_iter _ = Inl TypeError"

text \<open>\<open>x in container\<close>: a list is searched with \<open>==\<close>, a string accepts only a string on
  the left, a dictionary hashes the left operand (lists and dictionaries are unhashable)
  and looks it up among its keys, which are strings.\<close>

fun py_in :: "pyval \<Rightarrow> pyval \<Rightarrow> error + bool" where
  "py_in x (PList ys) = Inr (list_ex (py_eq x) ys)"
| "py_in (PStr t) (PStr s) = Inr (substring t s)"
| "py_in _ (PStr s) = Inl TypeError"
| "py_in (PStr k) (PDict kvs) = Inr (k \<in> fst ` set kvs)"
| "py_in (PList _) (PDict kvs) = Inl TypeError"
| "py_in (PDict _) (PDict kvs) = Inl TypeError"
| "py_in _ (PDict kvs) = Inr False"
| "py_in _ _ = Inl TypeError"

subsection \<open>The store\<close>

text \<open>The candidate and every job is an object in the store. A reference is always valid
  in Python, so the store is total.\<close>

type_synonym ref = nat
type_synonym heap = "ref \<Rightarrow> pydict"

text \<open>\<open>d[k]\<close> raises \<open>KeyError\<close> for a key that is absent.\<close>

definition getitem :: "pydict \<Rightarrow> string \<Rightarrow> error + pyval" where
  "getitem d k = (case map_of d k of None \<Rightarrow> Inl (KeyError k) | Some v \<Rightarrow> Inr v)"

subsection \<open>The score of one job\<close>

text \<open>
  \<open>sum(skill in job["required_skills"] for skill in candidate["skills"])\<close>: the generator's
  iterable \<open>candidate["skills"]\<close> is evaluated once, before the first element; the
  element expression \<open>skill in job["required_skills"]\<close> is evaluated once per element, so
  \<open>job["required_skills"]\<close> is looked up only when there is an element. \<open>sum\<close> starts at
  the integer 0 and adds each boolean as 0 or 1.
\<close>

fun sum_gen :: "pydict \<Rightarrow> pyval list \<Rightarrow> int \<Rightarrow> error + int" where
  "sum_gen job [] acc = Inr acc"
| "sum_gen job (skill # rest) acc =
     (case getitem job ''required_skills'' of
        Inl e \<Rightarrow> Inl e
      | Inr rs \<Rightarrow>
          (case py_in skill rs of
             Inl e \<Rightarrow> Inl e
           | Inr b \<Rightarrow> sum_gen job rest (acc + int_of_bool b)))"

definition score :: "pydict \<Rightarrow> pydict \<Rightarrow> error + int" where
  "score candidate job =
     (case getitem candidate ''skills'' of
        Inl e \<Rightarrow> Inl e
      | Inr sk \<Rightarrow>
          (case py_iter sk of
             Inl e \<Rightarrow> Inl e
           | Inr skills \<Rightarrow> sum_gen job skills 0))"

subsection \<open>The loop over the jobs\<close>

text \<open>
  The loop carries the store and \<open>matched_jobs\<close>. An exception leaves the loop with the
  store as it is at that moment. \<open>job["match_score"] = score\<close> is a write to the object
  that \<open>job\<close> refers to; \<open>matched_jobs.append(job)\<close> appends the reference.
\<close>

fun match_loop :: "heap \<Rightarrow> ref \<Rightarrow> ref list \<Rightarrow> ref list \<Rightarrow> heap \<times> (error + ref list)" where
  "match_loop h candidate [] matched_jobs = (h, Inr matched_jobs)"
| "match_loop h candidate (job # jobs) matched_jobs =
     (case score (h candidate) (h job) of
        Inl e \<Rightarrow> (h, Inl e)
      | Inr s \<Rightarrow>
          if s > 0
          then match_loop (h(job := AList.update ''match_score'' (PInt s) (h job)))
                 candidate jobs (matched_jobs @ [job])
          else match_loop h candidate jobs matched_jobs)"

subsection \<open>The sort\<close>

text \<open>
  \<open>matched_jobs.sort(key=lambda x: x["match_score"], reverse=True)\<close>. \<open>list.sort\<close> calls
  the key function once on every element, in order, before it compares anything; it is
  stable, and with \<open>reverse=True\<close> elements with equal keys keep their original order.
  That contract is the stable insertion sort \<^const>\<open>sort_key\<close> on the negated key.
  The key is the integer stored under \<open>match_score\<close> (a \<open>bool\<close> counts as its integer);
  the loop stores nothing else there, and the model reports any other value as
  \<open>TypeError\<close>.
\<close>

definition match_score_key :: "pydict \<Rightarrow> error + int" where
  "match_score_key x =
     (case getitem x ''match_score'' of
        Inl e \<Rightarrow> Inl e
      | Inr (PInt n) \<Rightarrow> Inr n
      | Inr (PBool b) \<Rightarrow> Inr (int_of_bool b)
      | Inr _ \<Rightarrow> Inl TypeError)"

fun sort_keys :: "heap \<Rightarrow> ref list \<Rightarrow> error + int list" where
  "sort_keys h [] = Inr []"
| "sort_keys h (x # xs) =
     (case match_score_key (h x) of
        Inl e \<Rightarrow> Inl e
      | Inr k \<Rightarrow>
          (case sort_keys h xs of
             Inl e \<Rightarrow> Inl e
           | Inr ks \<Rightarrow> Inr (k # ks)))"

definition sort_reverse :: "heap \<Rightarrow> ref list \<Rightarrow> error + ref list" where
  "sort_reverse h xs =
     (case sort_keys h xs of
        Inl e \<Rightarrow> Inl e
      | Inr ks \<Rightarrow> Inr (map snd (sort_key (\<lambda>p. - fst p) (zip ks xs))))"

subsection \<open>The handler\<close>

text \<open>The result is the store after the call together with either the exception or the
  list under the key \<open>matches\<close> of the returned dictionary.\<close>

definition match_jobs :: "heap \<Rightarrow> ref \<Rightarrow> ref list \<Rightarrow> heap \<times> (error + ref list)" where
  "match_jobs h candidate jobs =
     (case match_loop h candidate jobs [] of
        (h', Inl e) \<Rightarrow> (h', Inl e)
      | (h', Inr matched_jobs) \<Rightarrow> (h', sort_reverse h' matched_jobs))"

subsection \<open>Notions used to state the properties\<close>

text \<open>
  These are not part of the handler. \<open>member_count rs skills\<close> counts the elements of
  \<open>skills\<close> for which \<open>x in rs\<close> is true; \<open>the_score\<close> reads the score of a job as a
  number (0 when the expression raises); \<open>annotated\<close> is a job object after the body of
  the loop has run on it, \<open>final_heap\<close> the store after the loop has run on every job,
  and \<open>ranked\<close> the references the handler returns when nothing raises.
\<close>

definition member_count :: "pyval \<Rightarrow> pyval list \<Rightarrow> nat" where
  "member_count rs skills = length (filter (\<lambda>x. py_in x rs = Inr True) skills)"

definition the_score :: "heap \<Rightarrow> ref \<Rightarrow> ref \<Rightarrow> int" where
  "the_score h c a = (case score (h c) (h a) of Inl e \<Rightarrow> 0 | Inr s \<Rightarrow> s)"

definition annotated :: "heap \<Rightarrow> ref \<Rightarrow> ref \<Rightarrow> pydict" where
  "annotated h c a =
     (if the_score h c a > 0
      then AList.update ''match_score'' (PInt (the_score h c a)) (h a) else h a)"

definition final_heap :: "heap \<Rightarrow> ref \<Rightarrow> ref list \<Rightarrow> heap" where
  "final_heap h c js = (\<lambda>a. if a \<in> set js then annotated h c a else h a)"

definition ranked :: "heap \<Rightarrow> ref \<Rightarrow> ref list \<Rightarrow> ref list" where
  "ranked h c js = sort_key (\<lambda>a. - the_score h c a) (filter (\<lambda>a. 0 < the_score h c a) js)"

subsection \<open>Concrete requests\<close>

text \<open>Stores for the scenarios below. Object 0 is the candidate unless said otherwise;
  every object that is not listed is the empty dictionary.\<close>

text \<open>Scenario 1 of the specification: the candidate has the skills
  \<open>["python", "sql"]\<close>, the jobs are objects 1 and 2.\<close>

definition scenario1 :: heap where
  "scenario1 = (\<lambda>_. [])
     (0 := [(''skills'', PList [PStr ''python'', PStr ''sql''])],
      1 := [(''required_skills'', PList [PStr ''python'', PStr ''go''])],
      2 := [(''required_skills'', PList [PStr ''sql'', PStr ''python''])])"

text \<open>Four jobs with further fields: two of them score 1, one scores 2 and one scores 0.\<close>

definition scenario_ties :: heap where
  "scenario_ties = (\<lambda>_. [])
     (0 := [(''skills'', PList [PStr ''python'', PStr ''sql''])],
      1 := [(''title'', PStr ''A''), (''required_skills'', PList [PStr ''python'', PStr ''go''])],
      2 := [(''title'', PStr ''B''), (''required_skills'', PList [PStr ''sql'', PStr ''python''])],
      3 := [(''title'', PStr ''C''), (''required_skills'', PList [PStr ''sql''])],
      4 := [(''title'', PStr ''D''), (''required_skills'', PList [PStr ''rust''])])"

text \<open>A candidate who lists a skill twice, and a job that requires it three times.\<close>

definition repeated :: heap where
  "repeated = (\<lambda>_. [])
     (0 := [(''skills'', PList [PStr ''python'', PStr ''python'', PStr ''sql''])],
      1 := [(''required_skills'', PList [PStr ''python'', PStr ''python'', PStr ''python''])])"

text \<open>A candidate with no skills; object 2 is a job without \<open>required_skills\<close>.\<close>

definition no_skills :: heap where
  "no_skills = (\<lambda>_. [])
     (0 := [(''name'', PStr ''Ada''), (''skills'', PList [])],
      1 := [(''required_skills'', PList [PStr ''python''])],
      2 := [(''title'', PStr ''untitled'')])"

text \<open>Requests with fields missing: object 0 is a candidate with no skills, object 1 a job
  without \<open>required_skills\<close>, object 2 a candidate without \<open>skills\<close>, object 3 a
  candidate with one skill.\<close>

definition unvalidated :: heap where
  "unvalidated = (\<lambda>_. [])
     (0 := [(''skills'', PList [])],
      1 := [(''title'', PStr ''Engineer'')],
      2 := [(''name'', PStr ''Bob'')],
      3 := [(''skills'', PList [PStr ''python''])])"

text \<open>A job whose \<open>required_skills\<close> is a number.\<close>

definition wrong_shape :: heap where
  "wrong_shape = (\<lambda>_. [])
     (0 := [(''skills'', PList [PStr ''python''])],
      1 := [(''required_skills'', PInt 5)])"


section \<open>Properties of the parts\<close>

lemma getitem_update_other:
  "k \<noteq> k' \<Longrightarrow> getitem (AList.update k' v d) k = getitem d k"
  by (simp add: getitem_def update_conv')

lemma getitem_update_same: "getitem (AList.update k v d) k = Inr v"
  by (simp add: getitem_def update_conv')

lemma sum_gen_update:
  "sum_gen (AList.update ''match_score'' v job) xs acc = sum_gen job xs acc"
  by (induction xs arbitrary: acc) (simp_all add: getitem_update_other split: sum.splits)

lemma score_update_job: "score c (AList.update ''match_score'' v job) = score c job"
  by (simp add: score_def sum_gen_update split: sum.splits)

lemma score_update_cand: "score (AList.update ''match_score'' v c) job = score c job"
  by (simp add: score_def getitem_update_other)

lemma score_heap_update:
  "score ((h(j := AList.update ''match_score'' v (h j))) c)
         ((h(j := AList.update ''match_score'' v (h j))) a) = score (h c) (h a)"
  by (simp add: score_update_job score_update_cand)

lemma the_score_heap_update:
  "the_score (h(j := AList.update ''match_score'' v (h j))) c a = the_score h c a"
  unfolding the_score_def by (simp only: score_heap_update)

lemma member_count_Cons:
  "py_in x rs = Inr b \<Longrightarrow> int (member_count rs (x # xs)) = int_of_bool b + int (member_count rs xs)"
  by (simp add: member_count_def int_of_bool_def)

lemma sum_gen_ok:
  "getitem job ''required_skills'' = Inr rs \<Longrightarrow> \<forall>x\<in>set xs. \<exists>b. py_in x rs = Inr b \<Longrightarrow>
     sum_gen job xs acc = Inr (acc + int (member_count rs xs))"
proof (induction xs arbitrary: acc)
  case Nil
  then show ?case by (simp add: member_count_def)
next
  case (Cons x xs)
  then obtain b where b: "py_in x rs = Inr b" by auto
  have "sum_gen job (x # xs) acc = sum_gen job xs (acc + int_of_bool b)"
    using Cons.prems(1) b by simp
  also have "\<dots> = Inr (acc + int_of_bool b + int (member_count rs xs))"
    using Cons by simp
  finally show ?case
    using member_count_Cons [OF b, of xs] by simp
qed

lemma sum_gen_no_key:
  "getitem job ''required_skills'' = Inl e \<Longrightarrow> xs \<noteq> [] \<Longrightarrow> sum_gen job xs acc = Inl e"
  by (cases xs) simp_all

lemma sum_gen_bad_in:
  "getitem job ''required_skills'' = Inr rs \<Longrightarrow> \<exists>x\<in>set xs. \<exists>e. py_in x rs = Inl e \<Longrightarrow>
     \<exists>e. sum_gen job xs acc = Inl e"
  by (induction xs arbitrary: acc) (auto split: sum.splits)

lemma match_loop_fst:
  "fst (match_loop h c js m) a = h a \<or>
   (a \<in> set js \<and> 0 < the_score h c a \<and> fst (match_loop h c js m) a = annotated h c a)"
proof (induction js arbitrary: h m)
  case Nil
  then show ?case by simp
next
  case (Cons j js)
  show ?case
  proof (cases "score (h c) (h j)")
    case (Inl e)
    then show ?thesis by simp
  next
    case (Inr s)
    show ?thesis
    proof (cases "0 < s")
      case False
      with Inr Cons.IH [of h m] show ?thesis by auto
    next
      case True
      let ?h = "h(j := AList.update ''match_score'' (PInt s) (h j))"
      have sj: "the_score h c j = s" using Inr by (simp add: the_score_def)
      have step: "match_loop h c (j # js) m = match_loop ?h c js (m @ [j])"
        using Inr True by simp
      define L where "L = fst (match_loop ?h c js (m @ [j])) a"
      have hj: "?h j = annotated h c j"
        using True sj by (simp add: annotated_def)
      have annj: "annotated ?h c j = annotated h c j"
        unfolding annotated_def [of ?h] the_score_heap_update
        using True sj by (simp add: annotated_def)
      have hne: "?h a = h a" and annne: "annotated ?h c a = annotated h c a" if "a \<noteq> j"
        using that unfolding annotated_def [of ?h] the_score_heap_update
        by (simp_all add: annotated_def)
      have IH: "L = ?h a \<or> (a \<in> set js \<and> 0 < the_score h c a \<and> L = annotated ?h c a)"
        using Cons.IH [of ?h "m @ [j]"] unfolding L_def the_score_heap_update .
      have "L = h a \<or> (a \<in> set (j # js) \<and> 0 < the_score h c a \<and> L = annotated h c a)"
      proof (cases "a = j")
        case True
        with IH hj annj \<open>0 < s\<close> sj show ?thesis by auto
      next
        case False
        with IH hne annne show ?thesis by auto
      qed
      then show ?thesis unfolding step L_def .
    qed
  qed
qed

lemma annotated_heap_update:
  assumes "score (h c) (h j) = Inr s" "0 < s"
  defines "h' \<equiv> h(j := AList.update ''match_score'' (PInt s) (h j))"
  shows "h' j = annotated h c j" and "annotated h' c j = annotated h c j"
    and "a \<noteq> j \<Longrightarrow> h' a = h a" and "a \<noteq> j \<Longrightarrow> annotated h' c a = annotated h c a"
proof -
  have sj: "the_score h c j = s" using assms(1) by (simp add: the_score_def)
  have ts: "the_score h' c b = the_score h c b" for b
    unfolding h'_def by (rule the_score_heap_update)
  show "h' j = annotated h c j"
    using sj assms(2) by (simp add: annotated_def h'_def)
  show "annotated h' c j = annotated h c j"
    unfolding annotated_def [of h'] ts using sj assms(2) by (simp add: annotated_def h'_def)
  show "a \<noteq> j \<Longrightarrow> h' a = h a" by (simp add: h'_def)
  show "a \<noteq> j \<Longrightarrow> annotated h' c a = annotated h c a"
    unfolding annotated_def [of h'] ts by (simp add: annotated_def h'_def)
qed

lemma final_heap_step_pos:
  assumes "score (h c) (h j) = Inr s" "0 < s"
  shows "final_heap (h(j := AList.update ''match_score'' (PInt s) (h j))) c js
         = final_heap h c (j # js)"
proof (rule ext)
  fix a
  note u = annotated_heap_update [OF assms]
  show "final_heap (h(j := AList.update ''match_score'' (PInt s) (h j))) c js a
         = final_heap h c (j # js) a"
  proof (cases "a = j")
    case True
    then show ?thesis unfolding final_heap_def using u(1,2) by simp
  next
    case False
    then show ?thesis unfolding final_heap_def using u(3,4) [of a] by simp
  qed
qed

lemma final_heap_step_zero:
  assumes "score (h c) (h j) = Inr s" "\<not> 0 < s"
  shows "final_heap h c (j # js) = final_heap h c js"
proof (rule ext)
  fix a
  have "annotated h c j = h j"
    using assms by (simp add: annotated_def the_score_def)
  then show "final_heap h c (j # js) a = final_heap h c js a"
    by (simp add: final_heap_def)
qed

lemma match_loop_ok:
  "\<forall>a\<in>set js. \<exists>s. score (h c) (h a) = Inr s \<Longrightarrow>
   match_loop h c js m = (final_heap h c js, Inr (m @ filter (\<lambda>a. 0 < the_score h c a) js))"
proof (induction js arbitrary: h m)
  case Nil
  then show ?case by (simp add: final_heap_def)
next
  case (Cons j js)
  then obtain s where s: "score (h c) (h j) = Inr s" by auto
  have sj: "the_score h c j = s" using s by (simp add: the_score_def)
  show ?case
  proof (cases "0 < s")
    case False
    have "match_loop h c (j # js) m = match_loop h c js m"
      using s False by simp
    also have "\<dots> = (final_heap h c js, Inr (m @ filter (\<lambda>a. 0 < the_score h c a) js))"
      using Cons by simp
    finally show ?thesis
      using final_heap_step_zero [OF s False] sj False by simp
  next
    case True
    let ?h = "h(j := AList.update ''match_score'' (PInt s) (h j))"
    have ok: "\<forall>a\<in>set js. \<exists>s. score (?h c) (?h a) = Inr s"
      unfolding score_heap_update using Cons.prems by simp
    have "match_loop h c (j # js) m = match_loop ?h c js (m @ [j])"
      using s True by simp
    also have "\<dots> = (final_heap ?h c js, Inr ((m @ [j]) @ filter (\<lambda>a. 0 < the_score ?h c a) js))"
      by (rule Cons.IH [OF ok])
    finally show ?thesis
      unfolding the_score_heap_update final_heap_step_pos [OF s True]
      using sj True by simp
  qed
qed

lemma match_loop_error:
  "\<exists>a\<in>set js. \<exists>e. score (h c) (h a) = Inl e \<Longrightarrow> \<exists>e. snd (match_loop h c js m) = Inl e"
proof (induction js arbitrary: h m)
  case Nil
  then show ?case by simp
next
  case (Cons j js)
  show ?case
  proof (cases "score (h c) (h j)")
    case (Inl e)
    then show ?thesis by simp
  next
    case (Inr s)
    with Cons.prems have rest: "\<exists>a\<in>set js. \<exists>e. score (h c) (h a) = Inl e" by auto
    show ?thesis
    proof (cases "0 < s")
      case False
      with Inr Cons.IH [OF rest] show ?thesis by simp
    next
      case True
      let ?h = "h(j := AList.update ''match_score'' (PInt s) (h j))"
      have "\<exists>a\<in>set js. \<exists>e. score (?h c) (?h a) = Inl e"
        unfolding score_heap_update by (rule rest)
      then have "\<exists>e. snd (match_loop ?h c js (m @ [j])) = Inl e"
        by (rule Cons.IH)
      moreover have "match_loop h c (j # js) m = match_loop ?h c js (m @ [j])"
        using Inr True by simp
      ultimately show ?thesis by (simp only:)
    qed
  qed
qed

lemma sort_keys_ok:
  "\<forall>x\<in>set xs. match_score_key (h x) = Inr (f x) \<Longrightarrow> sort_keys h xs = Inr (map f xs)"
  by (induction xs) simp_all

lemma insort_key_decorated:
  "\<forall>p\<in>set ps. fst p = f (snd p) \<Longrightarrow>
   map snd (insort_key (\<lambda>p. - fst p) (f x, x) ps) = insort_key (\<lambda>a. - f a) x (map snd ps)"
  by (induction ps) auto

lemma sort_key_decorated:
  "map snd (sort_key (\<lambda>p. - fst p) (zip (map f xs) xs)) = sort_key (\<lambda>a. - (f a :: int)) xs"
proof (induction xs)
  case Nil
  then show ?case by simp
next
  case (Cons x xs)
  have "\<forall>p\<in>set (sort_key (\<lambda>p. - fst p) (zip (map f xs) xs)). fst p = f (snd p)"
    by (auto simp: in_set_zip)
  then show ?case
    using Cons by (simp add: insort_key_decorated)
qed

lemma sort_reverse_ok:
  "\<forall>x\<in>set xs. match_score_key (h x) = Inr (f x) \<Longrightarrow>
   sort_reverse h xs = Inr (sort_key (\<lambda>a. - f a) xs)"
  using sort_keys_ok [of xs h f] by (simp add: sort_reverse_def sort_key_decorated)

lemma match_score_key_annotated:
  "0 < the_score h c a \<Longrightarrow> match_score_key (annotated h c a) = Inr (the_score h c a)"
  by (simp add: annotated_def match_score_key_def getitem_update_same)

lemma match_jobs_ok:
  assumes "\<forall>a\<in>set js. \<exists>s. score (h c) (h a) = Inr s"
  shows "match_jobs h c js = (final_heap h c js, Inr (ranked h c js))"
proof -
  let ?m = "filter (\<lambda>a. 0 < the_score h c a) js"
  have loop: "match_loop h c js [] = (final_heap h c js, Inr ?m)"
    using match_loop_ok [OF assms, of "[]"] by simp
  have "\<forall>x\<in>set ?m. match_score_key (final_heap h c js x) = Inr (the_score h c x)"
    by (simp add: final_heap_def match_score_key_annotated)
  then have "sort_reverse (final_heap h c js) ?m = Inr (ranked h c js)"
    unfolding ranked_def by (rule sort_reverse_ok)
  with loop show ?thesis by (simp add: match_jobs_def)
qed

lemma match_jobs_error:
  assumes "\<exists>a\<in>set js. \<exists>e. score (h c) (h a) = Inl e"
  shows "\<exists>e. snd (match_jobs h c js) = Inl e"
proof -
  obtain e where "snd (match_loop h c js []) = Inl e"
    using match_loop_error [OF assms] by blast
  then show ?thesis
    by (cases "match_loop h c js []") (simp add: match_jobs_def)
qed

lemma sum_gen_Inr_D:
  assumes "sum_gen job xs acc = Inr n" "xs \<noteq> []"
  shows "\<exists>rs. getitem job ''required_skills'' = Inr rs \<and> (\<forall>x\<in>set xs. \<exists>b. py_in x rs = Inr b)"
proof (cases "getitem job ''required_skills''")
  case (Inl e)
  with assms sum_gen_no_key [OF Inl assms(2), of acc] show ?thesis by simp
next
  case (Inr rs)
  have "\<forall>x\<in>set xs. \<exists>b. py_in x rs = Inr b"
  proof (rule ccontr)
    assume "\<not> ?thesis"
    then have "\<exists>x\<in>set xs. \<exists>e. py_in x rs = Inl e"
      by (metis sum.exhaust)
    from sum_gen_bad_in [OF Inr this, of acc] assms(1) show False by simp
  qed
  with Inr show ?thesis by simp
qed

lemma score_Inr_D:
  assumes "score cand job = Inr n"
  shows "\<exists>sk skills. getitem cand ''skills'' = Inr sk \<and> py_iter sk = Inr skills \<and>
           (skills = [] \<and> n = 0 \<or>
            skills \<noteq> [] \<and> (\<exists>rs. getitem job ''required_skills'' = Inr rs \<and>
               (\<forall>x\<in>set skills. \<exists>b. py_in x rs = Inr b) \<and> n = int (member_count rs skills)))"
proof -
  from assms obtain sk skills where sk: "getitem cand ''skills'' = Inr sk"
    and it: "py_iter sk = Inr skills" and sg: "sum_gen job skills 0 = Inr n"
    by (auto simp: score_def split: sum.splits)
  show ?thesis
  proof (cases "skills = []")
    case True
    with sk it sg show ?thesis by simp
  next
    case False
    from sum_gen_Inr_D [OF sg False] obtain rs where
      rs: "getitem job ''required_skills'' = Inr rs" and ok: "\<forall>x\<in>set skills. \<exists>b. py_in x rs = Inr b"
      by blast
    from sum_gen_ok [OF rs ok, of 0] sg have "n = int (member_count rs skills)" by simp
    with sk it False rs ok show ?thesis by blast
  qed
qed

lemma score_positive_D:
  assumes "score cand job = Inr n" "0 < n"
  shows "\<exists>sk skills rs. getitem cand ''skills'' = Inr sk \<and> py_iter sk = Inr skills \<and>
           getitem job ''required_skills'' = Inr rs \<and> n = int (member_count rs skills)"
  using score_Inr_D [OF assms(1)] assms(2) by auto

lemma match_jobs_Inr_D:
  assumes "match_jobs h c js = (h', Inr r)"
  shows "(\<forall>a\<in>set js. \<exists>s. score (h c) (h a) = Inr s) \<and> h' = final_heap h c js \<and> r = ranked h c js"
proof -
  have ok: "\<forall>a\<in>set js. \<exists>s. score (h c) (h a) = Inr s"
  proof (rule ccontr)
    assume "\<not> ?thesis"
    then have "\<exists>a\<in>set js. \<exists>e. score (h c) (h a) = Inl e"
      by (metis sum.exhaust)
    from match_jobs_error [OF this] assms show False by simp
  qed
  from match_jobs_ok [OF ok] assms show ?thesis using ok by simp
qed

lemma set_ranked: "set (ranked h c js) = {a \<in> set js. 0 < the_score h c a}"
  by (simp add: ranked_def)

lemma the_score_positive_D: "0 < the_score h c a \<Longrightarrow> score (h c) (h a) = Inr (the_score h c a)"
  by (simp add: the_score_def split: sum.splits)

lemma final_heap_positive:
  "a \<in> set js \<Longrightarrow> 0 < the_score h c a \<Longrightarrow>
   final_heap h c js a = AList.update ''match_score'' (PInt (the_score h c a)) (h a)"
  by (simp add: final_heap_def annotated_def)

lemma final_heap_getitem_other:
  "k \<noteq> ''match_score'' \<Longrightarrow> getitem (final_heap h c js a) k = getitem (h a) k"
  by (simp add: final_heap_def annotated_def getitem_update_other)

lemma scenario1_run:
  "match_jobs scenario1 0 [1, 2] =
     (scenario1
        (1 := [(''required_skills'', PList [PStr ''python'', PStr ''go'']), (''match_score'', PInt 1)],
         2 := [(''required_skills'', PList [PStr ''sql'', PStr ''python'']), (''match_score'', PInt 2)]),
      Inr [2, 1])"
  by (simp add: scenario1_def match_jobs_def score_def getitem_def sort_reverse_def
      int_of_bool_def match_score_key_def)

lemma scenario_ties_run:
  "match_jobs scenario_ties 0 [1, 2, 3, 4] =
     (scenario_ties
        (1 := [(''title'', PStr ''A''), (''required_skills'', PList [PStr ''python'', PStr ''go'']),
               (''match_score'', PInt 1)],
         2 := [(''title'', PStr ''B''), (''required_skills'', PList [PStr ''sql'', PStr ''python'']),
               (''match_score'', PInt 2)],
         3 := [(''title'', PStr ''C''), (''required_skills'', PList [PStr ''sql'']),
               (''match_score'', PInt 1)]),
      Inr [2, 1, 3])"
  by (simp add: scenario_ties_def match_jobs_def score_def getitem_def sort_reverse_def
      int_of_bool_def match_score_key_def)

lemma scenario_ties_score_4: "score (scenario_ties 0) (scenario_ties 4) = Inr 0"
  by (simp add: scenario_ties_def score_def getitem_def int_of_bool_def)

lemma ranked_match_score:
  assumes "a \<in> set (ranked h c js)"
  shows "getitem (final_heap h c js a) ''match_score'' = Inr (PInt (the_score h c a))"
    and "0 < the_score h c a" and "a \<in> set js"
  using assms by (simp_all add: set_ranked final_heap_positive getitem_update_same)

lemma sorted_ranked: "sorted_wrt (\<ge>) (map (the_score h c) (ranked h c js))"
proof -
  have "sorted (map (\<lambda>a. - the_score h c a) (ranked h c js))"
    unfolding ranked_def by (rule sorted_sort_key)
  then show ?thesis by (simp add: sorted_wrt_map)
qed

lemma ranked_stable:
  "filter (\<lambda>a. the_score h c a = k) (ranked h c js) =
   filter (\<lambda>a. the_score h c a = k \<and> 0 < k) js"
proof -
  have "filter (\<lambda>a. the_score h c a = k) (ranked h c js) =
        filter (\<lambda>a. - the_score h c a = - k) (ranked h c js)"
    by simp
  also have "\<dots> = filter (\<lambda>a. - the_score h c a = - k) (filter (\<lambda>a. 0 < the_score h c a) js)"
    unfolding ranked_def by (rule sort_key_stable)
  also have "\<dots> = filter (\<lambda>a. the_score h c a = k \<and> 0 < k) js"
    by (auto intro: filter_cong)
  finally show ?thesis .
qed

lemma fst_match_jobs: "fst (match_jobs h c js) = fst (match_loop h c js [])"
  by (cases "match_loop h c js []") (simp add: match_jobs_def split: sum.splits)

lemma score_no_skills: "getitem cand ''skills'' = Inr (PList []) \<Longrightarrow> score cand job = Inr 0"
  by (simp add: score_def)

lemma final_heap_zero: "\<forall>a\<in>set js. the_score h c a = 0 \<Longrightarrow> final_heap h c js = h"
  by (rule ext) (simp add: final_heap_def annotated_def)

lemma ranked_zero: "\<forall>a\<in>set js. the_score h c a = 0 \<Longrightarrow> ranked h c js = []"
  by (simp add: ranked_def filter_empty_conv)

lemma match_jobs_Nil: "match_jobs h c [] = (h, Inr [])"
  by (simp add: match_jobs_def sort_reverse_def)

lemma match_loop_fst_shape:
  "fst (match_loop h c js m) a = h a \<or>
   (a \<in> set js \<and> (\<exists>s. fst (match_loop h c js m) a = AList.update ''match_score'' (PInt s) (h a)))"
  using match_loop_fst [of h c js m a] by (auto simp: annotated_def split: if_splits)

lemma score_final_heap:
  "score (final_heap h c js b) (final_heap h c js a) = score (h b) (h a)"
  by (simp add: final_heap_def annotated_def score_update_job score_update_cand)

lemma the_score_final_heap: "the_score (final_heap h c js) b a = the_score h b a"
  by (simp add: the_score_def score_final_heap)

lemma final_heap_again:
  assumes "set js' \<subseteq> set js"
  shows "final_heap (final_heap h c js) c js' = final_heap h c js"
proof (rule ext)
  fix a
  show "final_heap (final_heap h c js) c js' a = final_heap h c js a"
    using assms
    by (auto simp: final_heap_def [of _ _ js'] annotated_def [of "final_heap h c js"]
        the_score_final_heap final_heap_positive)
qed

lemma ranked_final_heap: "ranked (final_heap h c js) c js' = ranked h c js'"
  by (simp add: ranked_def the_score_final_heap)

lemma ranked_ranked: "ranked h c (ranked h c js) = ranked h c js"
proof -
  let ?f = "\<lambda>a. - the_score h c a" and ?P = "\<lambda>a. 0 < the_score h c a"
  have "filter ?P (ranked h c js) = ranked h c js"
    by (simp add: ranked_def filter_sort)
  moreover have "sort_key ?f (ranked h c js) = ranked h c js"
    unfolding ranked_def by (rule sort_key_id_if_sorted) (rule sorted_sort_key)
  ultimately show ?thesis by (simp add: ranked_def [of h c "ranked h c js"])
qed

lemma isl_sum_gen:
  "isl (sum_gen job xs acc) \<longleftrightarrow>
     xs \<noteq> [] \<and> (case getitem job ''required_skills'' of
                  Inl e \<Rightarrow> True
                | Inr rs \<Rightarrow> \<exists>s\<in>set xs. isl (py_in s rs))"
proof (cases "xs = []")
  case True
  then show ?thesis by simp
next
  case False
  show ?thesis
  proof (cases "getitem job ''required_skills''")
    case (Inl e)
    with False sum_gen_no_key [OF Inl False, of acc] show ?thesis by simp
  next
    case (Inr rs)
    show ?thesis
    proof (cases "\<exists>s\<in>set xs. isl (py_in s rs)")
      case True
      then have "\<exists>x\<in>set xs. \<exists>e. py_in x rs = Inl e" by (auto simp: isl_def)
      from sum_gen_bad_in [OF Inr this, of acc] True False Inr show ?thesis by auto
    next
      case no: False
      then have "\<forall>x\<in>set xs. \<exists>b. py_in x rs = Inr b"
        by (metis isl_def sum.exhaust)
      from sum_gen_ok [OF Inr this, of acc] no Inr show ?thesis by simp
    qed
  qed
qed

lemma isl_score:
  "isl (score cand job) \<longleftrightarrow>
     (case getitem cand ''skills'' of
        Inl e \<Rightarrow> True
      | Inr sk \<Rightarrow>
          (case py_iter sk of
             Inl e \<Rightarrow> True
           | Inr skills \<Rightarrow>
               skills \<noteq> [] \<and>
               (case getitem job ''required_skills'' of
                  Inl e \<Rightarrow> True
                | Inr rs \<Rightarrow> \<exists>s\<in>set skills. isl (py_in s rs))))"
  by (simp add: score_def isl_sum_gen split: sum.splits)

lemma isl_match_jobs: "isl (snd (match_jobs h c js)) \<longleftrightarrow> (\<exists>a\<in>set js. isl (score (h c) (h a)))"
proof (cases "\<exists>a\<in>set js. isl (score (h c) (h a))")
  case True
  then have "\<exists>a\<in>set js. \<exists>e. score (h c) (h a) = Inl e" by (auto simp: isl_def)
  from match_jobs_error [OF this] True show ?thesis by auto
next
  case False
  then have "\<forall>a\<in>set js. \<exists>s. score (h c) (h a) = Inr s"
    by (metis isl_def sum.exhaust)
  from match_jobs_ok [OF this] False show ?thesis by simp
qed





lemma repeated_run:
  "match_jobs repeated 0 [1] =
     (repeated
        (1 := [(''required_skills'', PList [PStr ''python'', PStr ''python'', PStr ''python'']),
               (''match_score'', PInt 2)]),
      Inr [1])"
  by (simp add: repeated_def match_jobs_def score_def getitem_def sort_reverse_def
      int_of_bool_def match_score_key_def)




section \<open>The claims\<close>

text \<open>
  C1. Whenever the handler returns, every job of the result carries, under
  \<open>match_score\<close>, the number of elements of the candidate's \<open>skills\<close> (in the order and
  with the repetitions the candidate lists them) for which \<open>skill in required_skills\<close> is
  true. The test is one boolean per candidate skill; against a list it asks whether some
  element is equal, so repeating an element of \<open>required_skills\<close> changes nothing.
\<close>

theorem match_score_is_member_count:
  assumes "match_jobs h c js = (h', Inr r)" and "a \<in> set r"
  shows "\<exists>sk skills rs.
           getitem (h c) ''skills'' = Inr sk \<and> py_iter sk = Inr skills \<and>
           getitem (h a) ''required_skills'' = Inr rs \<and>
           getitem (h' a) ''required_skills'' = Inr rs \<and>
           getitem (h' a) ''match_score'' =
             Inr (PInt (int (length (filter (\<lambda>s. py_in s rs = Inr True) skills)))) \<and>
           (\<forall>ys. rs = PList ys \<longrightarrow>
              filter (\<lambda>s. py_in s rs = Inr True) skills =
              filter (\<lambda>s. \<exists>y\<in>set ys. py_eq s y) skills)"
proof -
  from match_jobs_Inr_D [OF assms(1)]
  have h': "h' = final_heap h c js" and r: "r = ranked h c js" by simp_all
  from assms(2) r have a: "a \<in> set js" and pos: "0 < the_score h c a"
    by (simp_all add: set_ranked)
  from score_positive_D [OF the_score_positive_D [OF pos] pos]
  obtain sk skills rs where sk: "getitem (h c) ''skills'' = Inr sk"
    and it: "py_iter sk = Inr skills" and rs: "getitem (h a) ''required_skills'' = Inr rs"
    and n: "the_score h c a = int (member_count rs skills)" by blast
  have rs': "getitem (h' a) ''required_skills'' = Inr rs"
    unfolding h' using rs by (simp add: final_heap_getitem_other)
  have ms: "getitem (h' a) ''match_score'' =
      Inr (PInt (int (length (filter (\<lambda>s. py_in s rs = Inr True) skills))))"
    unfolding h' final_heap_positive [OF a pos] n
    by (simp add: getitem_update_same member_count_def)
  have "\<forall>ys. rs = PList ys \<longrightarrow>
          filter (\<lambda>s. py_in s rs = Inr True) skills = filter (\<lambda>s. \<exists>y\<in>set ys. py_eq s y) skills"
    by (simp add: list_ex_iff)
  with sk it rs rs' ms show ?thesis by blast
qed

theorem match_score_is_member_count_witness:
  "match_jobs repeated 0 [1] = (fst (match_jobs repeated 0 [1]), Inr [1]) \<and>
   getitem (fst (match_jobs repeated 0 [1]) 1) ''match_score'' = Inr (PInt 2) \<and>
   length (filter (\<lambda>s. py_in s (PList [PStr ''python'', PStr ''python'', PStr ''python'']) = Inr True)
             [PStr ''python'', PStr ''python'', PStr ''sql'']) = 2"
proof -
  have run: "match_jobs repeated 0 [1] = (fst (match_jobs repeated 0 [1]), Inr [1])"
    unfolding repeated_run by simp
  have mem: "1 \<in> set [1 :: ref]" by simp
  have sk: "getitem (repeated 0) ''skills'' = Inr (PList [PStr ''python'', PStr ''python'', PStr ''sql''])"
    by (simp add: repeated_def getitem_def)
  have rs: "getitem (repeated 1) ''required_skills'' =
      Inr (PList [PStr ''python'', PStr ''python'', PStr ''python''])"
    by (simp add: repeated_def getitem_def)
  have n: "length (filter (\<lambda>s. py_in s (PList [PStr ''python'', PStr ''python'', PStr ''python'']) = Inr True)
             [PStr ''python'', PStr ''python'', PStr ''sql'']) = 2"
    by simp
  from match_score_is_member_count [OF run mem] sk rs
  have "getitem (fst (match_jobs repeated 0 [1]) 1) ''match_score'' =
      Inr (PInt (int (length (filter
        (\<lambda>s. py_in s (PList [PStr ''python'', PStr ''python'', PStr ''python'']) = Inr True)
        [PStr ''python'', PStr ''python'', PStr ''sql'']))))"
    by auto
  with run n show ?thesis by simp
qed

text \<open>
  C2. Whenever the handler returns, the \<open>match_score\<close> values of the result, read in
  result order, are integers in descending order; and for every value \<open>k\<close> the jobs of the
  result whose \<open>match_score\<close> is \<open>k\<close> are the input jobs whose score is \<open>k\<close>, in the
  order of the input list. So jobs with equal scores keep their relative input order.
\<close>

theorem result_sorted_descending_stable:
  assumes "match_jobs h c js = (h', Inr r)"
  shows "\<exists>ks. map (\<lambda>a. getitem (h' a) ''match_score'') r = map (\<lambda>k. Inr (PInt k)) ks \<and>
           sorted_wrt (\<ge>) ks \<and>
           (\<forall>k. filter (\<lambda>a. getitem (h' a) ''match_score'' = Inr (PInt k)) r =
                filter (\<lambda>a. score (h c) (h a) = Inr k \<and> 0 < k) js)"
proof -
  from match_jobs_Inr_D [OF assms]
  have ok: "\<forall>a\<in>set js. \<exists>s. score (h c) (h a) = Inr s"
    and h': "h' = final_heap h c js" and r: "r = ranked h c js" by simp_all
  have ms: "getitem (h' a) ''match_score'' = Inr (PInt (the_score h c a))" if "a \<in> set r" for a
    using that unfolding h' r by (rule ranked_match_score)
  have keys: "map (\<lambda>a. getitem (h' a) ''match_score'') r =
              map (\<lambda>k. Inr (PInt k)) (map (the_score h c) r)"
    using ms by simp
  have desc: "sorted_wrt (\<ge>) (map (the_score h c) r)"
    unfolding r by (rule sorted_ranked)
  have stable: "filter (\<lambda>a. getitem (h' a) ''match_score'' = Inr (PInt k)) r =
                filter (\<lambda>a. score (h c) (h a) = Inr k \<and> 0 < k) js" for k
  proof -
    have "filter (\<lambda>a. getitem (h' a) ''match_score'' = Inr (PInt k)) r =
          filter (\<lambda>a. the_score h c a = k) r"
      using ms by (auto intro: filter_cong)
    also have "\<dots> = filter (\<lambda>a. the_score h c a = k \<and> 0 < k) js"
      unfolding r by (rule ranked_stable)
    also have "\<dots> = filter (\<lambda>a. score (h c) (h a) = Inr k \<and> 0 < k) js"
      using ok by (auto intro!: filter_cong simp: the_score_def)
    finally show ?thesis .
  qed
  from keys desc stable show ?thesis by blast
qed

theorem result_sorted_descending_stable_witness:
  "match_jobs scenario_ties 0 [1, 2, 3, 4] = (fst (match_jobs scenario_ties 0 [1, 2, 3, 4]), Inr [2, 1, 3]) \<and>
   (\<exists>ks. map (\<lambda>a. getitem (fst (match_jobs scenario_ties 0 [1, 2, 3, 4]) a) ''match_score'') [2, 1, 3] =
           map (\<lambda>k. Inr (PInt k)) ks \<and>
         sorted_wrt (\<ge>) ks \<and>
         (\<forall>k. filter (\<lambda>a. getitem (fst (match_jobs scenario_ties 0 [1, 2, 3, 4]) a) ''match_score'' = Inr (PInt k)) [2, 1, 3] =
              filter (\<lambda>a. score (scenario_ties 0) (scenario_ties a) = Inr k \<and> 0 < k) [1, 2, 3, 4]))"
proof -
  have run: "match_jobs scenario_ties 0 [1, 2, 3, 4] =
      (fst (match_jobs scenario_ties 0 [1, 2, 3, 4]), Inr [2, 1, 3])"
    unfolding scenario_ties_run by simp
  from run result_sorted_descending_stable [OF run] show ?thesis by (rule conjI)
qed

text \<open>
  C3. Whenever the handler returns, every job of the result carries a \<open>match_score\<close> of
  at least 1, no input job whose score is 0 is in the result, every job of the result is
  an input job, and the result is no longer than the input list.
\<close>

theorem result_positive_and_bounded:
  assumes "match_jobs h c js = (h', Inr r)"
  shows "(\<forall>a\<in>set r. \<exists>n. getitem (h' a) ''match_score'' = Inr (PInt n) \<and> 1 \<le> n) \<and>
         (\<forall>a\<in>set js. score (h c) (h a) = Inr 0 \<longrightarrow> a \<notin> set r) \<and>
         set r \<subseteq> set js \<and> length r \<le> length js"
proof -
  from match_jobs_Inr_D [OF assms]
  have h': "h' = final_heap h c js" and r: "r = ranked h c js" by simp_all
  have "\<exists>n. getitem (h' a) ''match_score'' = Inr (PInt n) \<and> 1 \<le> n" if "a \<in> set r" for a
    using ranked_match_score [of a h c js] that unfolding h' r by auto
  moreover have "a \<notin> set r" if "score (h c) (h a) = Inr 0" for a
    using that unfolding r by (simp add: set_ranked the_score_def)
  moreover have "set r \<subseteq> set js" unfolding r by (auto simp: set_ranked)
  moreover have "length r \<le> length js" unfolding r by (simp add: ranked_def)
  ultimately show ?thesis by blast
qed

theorem result_positive_and_bounded_witness:
  "match_jobs scenario_ties 0 [1, 2, 3, 4] = (fst (match_jobs scenario_ties 0 [1, 2, 3, 4]), Inr [2, 1, 3]) \<and>
   score (scenario_ties 0) (scenario_ties 4) = Inr 0 \<and> 4 \<notin> set [2, 1, 3 :: ref] \<and>
   length [2, 1, 3 :: ref] \<le> length [1, 2, 3, 4 :: ref]"
proof -
  have run: "match_jobs scenario_ties 0 [1, 2, 3, 4] =
      (fst (match_jobs scenario_ties 0 [1, 2, 3, 4]), Inr [2, 1, 3])"
    unfolding scenario_ties_run by simp
  from result_positive_and_bounded [OF run] scenario_ties_score_4
  have "4 \<notin> set [2, 1, 3 :: ref]" and "length [2, 1, 3 :: ref] \<le> length [1, 2, 3, 4 :: ref]"
    by auto
  with run scenario_ties_score_4 show ?thesis by blast
qed

text \<open>
  C4. The statement of the specification fails at three requests. A candidate with the
  empty skills list and a job without \<open>required_skills\<close> get the empty result, not an
  exception: the field is looked up once per candidate skill. A candidate without
  \<open>skills\<close> gets the empty result for the empty job list: the field is looked up once per
  job. And a job whose \<open>required_skills\<close> is a number makes the call raise although
  \<open>skills\<close> is a list and no job lacks \<open>required_skills\<close>.
\<close>

theorem lazy_lookups_no_failure:
  "getitem (unvalidated 1) ''required_skills'' = Inl (KeyError ''required_skills'') \<and>
   match_jobs unvalidated 0 [1] = (unvalidated, Inr []) \<and>
   getitem (unvalidated 2) ''skills'' = Inl (KeyError ''skills'') \<and>
   match_jobs unvalidated 2 [] = (unvalidated, Inr []) \<and>
   getitem (wrong_shape 0) ''skills'' = Inr (PList [PStr ''python'']) \<and>
   getitem (wrong_shape 1) ''required_skills'' = Inr (PInt 5) \<and>
   match_jobs wrong_shape 0 [1] = (wrong_shape, Inl TypeError)"
  by (simp add: unvalidated_def wrong_shape_def match_jobs_def score_def getitem_def sort_reverse_def)

text \<open>
  C4, as the code has it. The handler raises exactly when the job list is not empty and
  either \<open>candidate["skills"]\<close> is absent or cannot be iterated, or it yields at least one
  skill and some job has no \<open>required_skills\<close> or has one on which \<open>in\<close> raises for some
  skill of the candidate.
\<close>

theorem match_jobs_raises_iff:
  "isl (snd (match_jobs h c js)) \<longleftrightarrow>
     js \<noteq> [] \<and>
     (case getitem (h c) ''skills'' of
        Inl e \<Rightarrow> True
      | Inr sk \<Rightarrow>
          (case py_iter sk of
             Inl e \<Rightarrow> True
           | Inr skills \<Rightarrow>
               skills \<noteq> [] \<and>
               (\<exists>a\<in>set js.
                  case getitem (h a) ''required_skills'' of
                    Inl e \<Rightarrow> True
                  | Inr rs \<Rightarrow> \<exists>s\<in>set skills. isl (py_in s rs))))"
  unfolding isl_match_jobs isl_score
  by (cases js) (auto split: sum.splits)

theorem match_jobs_raises_iff_witness:
  "snd (match_jobs unvalidated 3 [1]) = Inl (KeyError ''required_skills'') \<and>
   snd (match_jobs unvalidated 2 [1]) = Inl (KeyError ''skills'') \<and>
   \<not> isl (snd (match_jobs unvalidated 0 [1]))"
proof -
  have a: "snd (match_jobs unvalidated 3 [1]) = Inl (KeyError ''required_skills'')"
    by (simp add: unvalidated_def match_jobs_def score_def getitem_def)
  have b: "snd (match_jobs unvalidated 2 [1]) = Inl (KeyError ''skills'')"
    by (simp add: unvalidated_def match_jobs_def score_def getitem_def)
  have "getitem (unvalidated 0) ''skills'' = Inr (PList [])"
    by (simp add: unvalidated_def getitem_def)
  then have "\<not> isl (snd (match_jobs unvalidated 0 [1]))"
    unfolding match_jobs_raises_iff [of unvalidated 0 "[1]"] by simp
  with a b show ?thesis by blast
qed

text \<open>
  C5. A candidate whose \<open>skills\<close> is the empty list gets the empty result for every job
  list, with no exception and no object changed, whatever the jobs hold; and an empty job
  list gets the empty result for every candidate.
\<close>

theorem empty_inputs_give_empty_result:
  "(getitem (h c) ''skills'' = Inr (PList []) \<longrightarrow> match_jobs h c js = (h, Inr [])) \<and>
   match_jobs h c [] = (h, Inr [])"
proof (intro conjI impI)
  assume sk: "getitem (h c) ''skills'' = Inr (PList [])"
  then have sc: "score (h c) (h a) = Inr 0" for a by (rule score_no_skills)
  then have zero: "\<forall>a\<in>set js. the_score h c a = 0" by (simp add: the_score_def)
  have "match_jobs h c js = (final_heap h c js, Inr (ranked h c js))"
    by (rule match_jobs_ok) (simp add: sc)
  then show "match_jobs h c js = (h, Inr [])"
    by (simp add: final_heap_zero [OF zero] ranked_zero [OF zero])
next
  show "match_jobs h c [] = (h, Inr [])" by (rule match_jobs_Nil)
qed

theorem empty_inputs_give_empty_result_witness:
  "getitem (no_skills 0) ''skills'' = Inr (PList []) \<and>
   getitem (no_skills 2) ''required_skills'' = Inl (KeyError ''required_skills'') \<and>
   match_jobs no_skills 0 [1, 2] = (no_skills, Inr []) \<and>
   match_jobs no_skills 7 [] = (no_skills, Inr [])"
proof -
  have sk: "getitem (no_skills 0) ''skills'' = Inr (PList [])"
    by (simp add: no_skills_def getitem_def)
  have rs: "getitem (no_skills 2) ''required_skills'' = Inl (KeyError ''required_skills'')"
    by (simp add: no_skills_def getitem_def)
  from empty_inputs_give_empty_result [of no_skills 0 "[1, 2]"] sk
  have a: "match_jobs no_skills 0 [1, 2] = (no_skills, Inr [])" by blast
  from empty_inputs_give_empty_result [of no_skills 7 "[]"]
  have b: "match_jobs no_skills 7 [] = (no_skills, Inr [])" by blast
  from sk rs a b show ?thesis by blast
qed

text \<open>
  C6. The candidate and the jobs of a request are separate objects: the candidate is not
  one of the jobs. The handler writes to no object outside the job list, so the candidate
  is the same object after the call as before it. Every object is afterwards either
  unchanged or the same dictionary with \<open>match_score\<close> set, so every field of every job
  other than \<open>match_score\<close> keeps its value. This holds whether the call returns or
  raises.
\<close>

theorem candidate_kept_only_match_score_written:
  assumes "match_jobs h c js = (h', res)" and "c \<notin> set js"
  shows "h' c = h c \<and>
         (\<forall>a. a \<notin> set js \<longrightarrow> h' a = h a) \<and>
         (\<forall>a. h' a = h a \<or> (\<exists>s. h' a = AList.update ''match_score'' (PInt s) (h a))) \<and>
         (\<forall>a k. k \<noteq> ''match_score'' \<longrightarrow> map_of (h' a) k = map_of (h a) k)"
proof -
  have h': "h' = fst (match_loop h c js [])"
    using assms(1) fst_match_jobs [of h c js] by simp
  have shape: "h' a = h a \<or> (a \<in> set js \<and> (\<exists>s. h' a = AList.update ''match_score'' (PInt s) (h a)))"
    for a unfolding h' by (rule match_loop_fst_shape)
  have out: "h' a = h a" if "a \<notin> set js" for a
    using shape [of a] that by blast
  have fields: "map_of (h' a) k = map_of (h a) k" if "k \<noteq> ''match_score''" for a k
    using shape [of a] that by (auto simp: update_conv')
  from shape out [OF assms(2)] out fields show ?thesis by blast
qed

theorem candidate_kept_only_match_score_written_witness:
  "match_jobs scenario_ties 0 [1, 2, 3, 4] = (fst (match_jobs scenario_ties 0 [1, 2, 3, 4]), Inr [2, 1, 3]) \<and>
   0 \<notin> set [1, 2, 3, 4 :: ref] \<and>
   fst (match_jobs scenario_ties 0 [1, 2, 3, 4]) 0 = scenario_ties 0 \<and>
   map_of (fst (match_jobs scenario_ties 0 [1, 2, 3, 4]) 2) ''title'' = Some (PStr ''B'') \<and>
   map_of (fst (match_jobs scenario_ties 0 [1, 2, 3, 4]) 2) ''match_score'' = Some (PInt 2)"
proof -
  have run: "match_jobs scenario_ties 0 [1, 2, 3, 4] =
      (fst (match_jobs scenario_ties 0 [1, 2, 3, 4]), Inr [2, 1, 3])"
    unfolding scenario_ties_run by simp
  have sep: "0 \<notin> set [1, 2, 3, 4 :: ref]" by simp
  have title: "map_of (scenario_ties 2) ''title'' = Some (PStr ''B'')"
    by (simp add: scenario_ties_def)
  have ms: "map_of (fst (match_jobs scenario_ties 0 [1, 2, 3, 4]) 2) ''match_score'' = Some (PInt 2)"
    unfolding scenario_ties_run by simp
  from candidate_kept_only_match_score_written [OF run sep] title
  have "fst (match_jobs scenario_ties 0 [1, 2, 3, 4]) 0 = scenario_ties 0"
    and "map_of (fst (match_jobs scenario_ties 0 [1, 2, 3, 4]) 2) ''title'' = Some (PStr ''B'')"
    by simp_all
  with run sep ms show ?thesis by blast
qed

text \<open>
  C7. After a call that returned, a second call with the same candidate on the same job
  objects, now annotated, computes the same score for every job, leaves the store as the
  first call left it and returns the same result; so does a second call on the list the
  first call returned.
\<close>

theorem second_call_same_scores:
  assumes "match_jobs h c js = (h1, Inr r1)"
  shows "(\<forall>a. score (h1 c) (h1 a) = score (h c) (h a)) \<and>
         match_jobs h1 c js = (h1, Inr r1) \<and>
         match_jobs h1 c r1 = (h1, Inr r1)"
proof -
  from match_jobs_Inr_D [OF assms]
  have ok: "\<forall>a\<in>set js. \<exists>s. score (h c) (h a) = Inr s"
    and h1: "h1 = final_heap h c js" and r1: "r1 = ranked h c js" by simp_all
  have sc: "score (h1 c) (h1 a) = score (h c) (h a)" for a
    unfolding h1 by (rule score_final_heap)
  have sub: "set r1 \<subseteq> set js" unfolding r1 by (auto simp: set_ranked)
  have "match_jobs h1 c js = (final_heap h1 c js, Inr (ranked h1 c js))"
    by (rule match_jobs_ok) (simp add: sc ok)
  then have again: "match_jobs h1 c js = (h1, Inr r1)"
    unfolding h1 r1 by (simp add: final_heap_again ranked_final_heap)
  have "match_jobs h1 c r1 = (final_heap h1 c r1, Inr (ranked h1 c r1))"
    by (rule match_jobs_ok) (use ok sub in \<open>auto simp: sc\<close>)
  then have "match_jobs h1 c r1 = (h1, Inr r1)"
    using sub unfolding h1 r1 by (simp add: final_heap_again ranked_final_heap ranked_ranked)
  with sc again show ?thesis by blast
qed

theorem second_call_same_scores_witness:
  "match_jobs scenario_ties 0 [1, 2, 3, 4] = (fst (match_jobs scenario_ties 0 [1, 2, 3, 4]), Inr [2, 1, 3]) \<and>
   match_jobs (fst (match_jobs scenario_ties 0 [1, 2, 3, 4])) 0 [1, 2, 3, 4] =
     (fst (match_jobs scenario_ties 0 [1, 2, 3, 4]), Inr [2, 1, 3]) \<and>
   match_jobs (fst (match_jobs scenario_ties 0 [1, 2, 3, 4])) 0 [2, 1, 3] =
     (fst (match_jobs scenario_ties 0 [1, 2, 3, 4]), Inr [2, 1, 3])"
proof -
  have run: "match_jobs scenario_ties 0 [1, 2, 3, 4] =
      (fst (match_jobs scenario_ties 0 [1, 2, 3, 4]), Inr [2, 1, 3])"
    unfolding scenario_ties_run by simp
  from run second_call_same_scores [OF run] show ?thesis by blast
qed

text \<open>
  C8. Scenario 1: candidate skills \<open>["python", "sql"]\<close>, first job requiring
  \<open>["python", "go"]\<close>, second job requiring \<open>["sql", "python"]\<close>. The handler returns the
  second job, now with \<open>match_score\<close> 2, followed by the first, now with \<open>match_score\<close> 1,
  and nothing else.
\<close>

theorem scenario1_result:
  "snd (match_jobs scenario1 0 [1, 2]) = Inr [2, 1] \<and>
   map (fst (match_jobs scenario1 0 [1, 2])) [2, 1] =
     [[(''required_skills'', PList [PStr ''sql'', PStr ''python'']), (''match_score'', PInt 2)],
      [(''required_skills'', PList [PStr ''python'', PStr ''go'']), (''match_score'', PInt 1)]]"
  unfolding scenario1_run by simp

theorem scenario1_result_witness:
  "snd (match_jobs scenario1 0 [1, 2]) = Inr [2, 1]"
  using scenario1_result by (rule conjunct1)

text \<open>
  C9. A job whose score is 0 is the same object after the call as before it, whether the
  call returns or raises: no \<open>match_score\<close> is written to it. When the call returns, the
  job is not in the result.
\<close>

theorem zero_score_job_untouched:
  assumes "score (h c) (h a) = Inr 0"
  shows "fst (match_jobs h c js) a = h a \<and>
         getitem (fst (match_jobs h c js) a) ''match_score'' = getitem (h a) ''match_score'' \<and>
         (\<forall>r. snd (match_jobs h c js) = Inr r \<longrightarrow> a \<notin> set r)"
proof -
  have ts: "the_score h c a = 0" using assms by (simp add: the_score_def)
  have same: "fst (match_jobs h c js) a = h a"
    unfolding fst_match_jobs using match_loop_fst [of h c js "[]" a] ts by simp
  have "a \<notin> set r" if "snd (match_jobs h c js) = Inr r" for r
  proof -
    from that have "match_jobs h c js = (fst (match_jobs h c js), Inr r)"
      by (metis prod.collapse)
    from match_jobs_Inr_D [OF this] ts show ?thesis by (simp add: set_ranked)
  qed
  with same show ?thesis by simp
qed

theorem zero_score_job_untouched_witness:
  "score (scenario_ties 0) (scenario_ties 4) = Inr 0 \<and>
   fst (match_jobs scenario_ties 0 [1, 2, 3, 4]) 4 =
     [(''title'', PStr ''D''), (''required_skills'', PList [PStr ''rust''])] \<and>
   getitem (fst (match_jobs scenario_ties 0 [1, 2, 3, 4]) 4) ''match_score'' =
     Inl (KeyError ''match_score'')"
proof -
  have h4: "scenario_ties 4 = [(''title'', PStr ''D''), (''required_skills'', PList [PStr ''rust''])]"
    by (simp add: scenario_ties_def)
  have "getitem (scenario_ties 4) ''match_score'' = Inl (KeyError ''match_score'')"
    unfolding h4 by (simp add: getitem_def)
  with zero_score_job_untouched [OF scenario_ties_score_4, of "[1, 2, 3, 4]"] h4
    scenario_ties_score_4
  show ?thesis by simp
qed




end
